theory Spec2Isabelle
  imports Complex_Main
begin

section \<open>Data model\<close>

text \<open>
  The program (\<^verbatim>\<open>examples/Pmat_to_camera.py\<close>) works on \<^verbatim>\<open>numpy.matrix\<close> values of
  fixed shapes: the 3x4 projection matrix \<^verbatim>\<open>P\<close>, 3x3 matrices (\<^verbatim>\<open>N = 3\<close> is a constant
  of the source) and 3x1 columns. On \<^verbatim>\<open>numpy.matrix\<close> the operator \<^verbatim>\<open>*\<close> is the matrix
  product. Entries are IEEE doubles in the source; here they are exact reals, so every
  statement below is about the computation without rounding. Where the floating-point
  semantics differs in kind from real arithmetic it is modelled explicitly: division by
  zero (numpy raises nothing and stores \<^verbatim>\<open>inf\<close>/\<^verbatim>\<open>nan\<close>) by the constructor
  \<open>NonFinite\<close> below, and a quotient that leaves the range of doubles (underflow to
  \<^verbatim>\<open>0.0\<close>, overflow to \<^verbatim>\<open>inf\<close>) by \<open>scale_normalize_ieee\<close> and \<open>KRT_from_P_ieee\<close>.

  A matrix is stored row by row: \<open>m01\<close> is the entry \<^verbatim>\<open>[0,1]\<close>.
\<close>

datatype vec3 = Vec3 (v0: real) (v1: real) (v2: real)

datatype mat3 = Mat3
  (m00: real) (m01: real) (m02: real)
  (m10: real) (m11: real) (m12: real)
  (m20: real) (m21: real) (m22: real)

datatype mat34 = Mat34
  (p00: real) (p01: real) (p02: real) (p03: real)
  (p10: real) (p11: real) (p12: real) (p13: real)
  (p20: real) (p21: real) (p22: real) (p23: real)

text \<open>
  A value returned by a numpy computation: either all entries are finite reals, or the
  returned arrays hold \<^verbatim>\<open>inf\<close>/\<^verbatim>\<open>nan\<close> entries. \<open>NonFinite\<close> is a returned value, not
  an exception.
\<close>

datatype 'a fp = Finite 'a | NonFinite

subsection \<open>numpy operations on these shapes\<close>

text \<open>\<^verbatim>\<open>A.T\<close>\<close>

fun transpose3 :: "mat3 \<Rightarrow> mat3" where
  "transpose3 (Mat3 a b c d e f g h i) = Mat3 a d g b e h c f i"

text \<open>\<^verbatim>\<open>A[::-1, ::-1]\<close>: rows and columns both in reverse order.\<close>

fun flip3 :: "mat3 \<Rightarrow> mat3" where
  "flip3 (Mat3 a b c d e f g h i) = Mat3 i h g f e d c b a"

text \<open>\<^verbatim>\<open>A * B\<close> on \<^verbatim>\<open>numpy.matrix\<close>: the matrix product.\<close>

fun mmul :: "mat3 \<Rightarrow> mat3 \<Rightarrow> mat3" where
  "mmul (Mat3 a b c d e f g h i) (Mat3 a' b' c' d' e' f' g' h' i') = Mat3
     (a * a' + b * d' + c * g') (a * b' + b * e' + c * h') (a * c' + b * f' + c * i')
     (d * a' + e * d' + f * g') (d * b' + e * e' + f * h') (d * c' + e * f' + f * i')
     (g * a' + h * d' + i * g') (g * b' + h * e' + i * h') (g * c' + h * f' + i * i')"

text \<open>\<^verbatim>\<open>A * x\<close> for a 3x1 column \<^verbatim>\<open>x\<close>.\<close>

fun mvec :: "mat3 \<Rightarrow> vec3 \<Rightarrow> vec3" where
  "mvec (Mat3 a b c d e f g h i) (Vec3 x y z) =
     Vec3 (a * x + b * y + c * z) (d * x + e * y + f * z) (g * x + h * y + i * z)"

text \<open>\<^verbatim>\<open>-A\<close> and \<^verbatim>\<open>-x\<close>\<close>

fun neg3 :: "mat3 \<Rightarrow> mat3" where
  "neg3 (Mat3 a b c d e f g h i) = Mat3 (- a) (- b) (- c) (- d) (- e) (- f) (- g) (- h) (- i)"

fun vneg :: "vec3 \<Rightarrow> vec3" where
  "vneg (Vec3 x y z) = Vec3 (- x) (- y) (- z)"

text \<open>\<^verbatim>\<open>c * A\<close> and \<^verbatim>\<open>c * x\<close> for a scalar \<^verbatim>\<open>c\<close>.\<close>

fun scale3 :: "real \<Rightarrow> mat3 \<Rightarrow> mat3" where
  "scale3 c (Mat3 a b d e f g h i j) =
     Mat3 (c * a) (c * b) (c * d) (c * e) (c * f) (c * g) (c * h) (c * i) (c * j)"

fun vscale :: "real \<Rightarrow> vec3 \<Rightarrow> vec3" where
  "vscale c (Vec3 x y z) = Vec3 (c * x) (c * y) (c * z)"

text \<open>\<^verbatim>\<open>numpy.linalg.det(A)\<close> of a 3x3 matrix, without rounding.\<close>

fun det3 :: "mat3 \<Rightarrow> real" where
  "det3 (Mat3 a b c d e f g h i) =
     a * (e * i - f * h) - b * (d * i - f * g) + c * (d * h - e * g)"

text \<open>\<^verbatim>\<open>numpy.diag(K)\<close> of a matrix (its diagonal) and of a vector (a diagonal matrix).\<close>

fun diag_of :: "mat3 \<Rightarrow> vec3" where
  "diag_of (Mat3 a b c d e f g h i) = Vec3 a e i"

fun diag3 :: "vec3 \<Rightarrow> mat3" where
  "diag3 (Vec3 x y z) = Mat3 x 0 0 0 y 0 0 0 z"

text \<open>
  \<^verbatim>\<open>numpy.sign\<close>, entry by entry: \<open>-1\<close>, \<open>0\<close> or \<open>1\<close>; in particular the sign of
  \<open>0\<close> is \<open>0\<close>, which is \<^const>\<open>sgn\<close> on the reals.
\<close>

fun vsign :: "vec3 \<Rightarrow> vec3" where
  "vsign (Vec3 x y z) = Vec3 (sgn x) (sgn y) (sgn z)"

text \<open>\<^verbatim>\<open>P[:,0:N]\<close> with \<^verbatim>\<open>N = 3\<close>, and \<^verbatim>\<open>P[:,-1]\<close>.\<close>

fun leading3 :: "mat34 \<Rightarrow> mat3" where
  "leading3 (Mat34 a b c t d e f u g h i w) = Mat3 a b c d e f g h i"

fun last_col :: "mat34 \<Rightarrow> vec3" where
  "last_col (Mat34 a b c t d e f u g h i w) = Vec3 t u w"

text \<open>\<^verbatim>\<open>r[:,0] *= -1\<close> and \<^verbatim>\<open>q[0,:] *= -1\<close>, as functions of the old matrix.\<close>

fun neg_col0 :: "mat3 \<Rightarrow> mat3" where
  "neg_col0 (Mat3 a b c d e f g h i) = Mat3 (- a) b c (- d) e f (- g) h i"

fun neg_row0 :: "mat3 \<Rightarrow> mat3" where
  "neg_row0 (Mat3 a b c d e f g h i) = Mat3 (- a) (- b) (- c) d e f g h i"

definition one3 :: mat3 where
  "one3 = Mat3 1 0 0 0 1 0 0 0 1"

text \<open>The block matrix \<open>[R | T]\<close>, the product of a 3x3 with a 3x4 matrix, and \<open>c * P\<close>.\<close>

fun hstack :: "mat3 \<Rightarrow> vec3 \<Rightarrow> mat34" where
  "hstack (Mat3 a b c d e f g h i) (Vec3 x y z) = Mat34 a b c x d e f y g h i z"

definition mmul34 :: "mat3 \<Rightarrow> mat34 \<Rightarrow> mat34" where
  "mmul34 K M = hstack (mmul K (leading3 M)) (mvec K (last_col M))"


text \<open>Upper-triangular and orthogonal 3x3 matrices.\<close>

definition upper3 :: "mat3 \<Rightarrow> bool" where
  "upper3 A = (m10 A = 0 \<and> m20 A = 0 \<and> m21 A = 0)"

definition orthogonal3 :: "mat3 \<Rightarrow> bool" where
  "orthogonal3 Q = (mmul Q (transpose3 Q) = one3)"

section \<open>The library primitives\<close>

text \<open>
  \<^verbatim>\<open>numpy.linalg.qr\<close> and \<^verbatim>\<open>numpy.linalg.lstsq\<close> are LAPACK routines, not code of this
  program. They are parameters of the model. What the program relies on is their
  documented contract, stated here for one call:
  \<^item> \<^verbatim>\<open>q, r = qr(a, 'complete')\<close>: \<^verbatim>\<open>q\<close> has orthonormal columns, \<^verbatim>\<open>r\<close> is
    upper-triangular and \<^verbatim>\<open>q * r = a\<close>;
  \<^item> \<^verbatim>\<open>x = lstsq(a, b)[0]\<close> minimises the Euclidean norm of \<^verbatim>\<open>a * x - b\<close>, which is
    to say that it solves the normal equations \<^verbatim>\<open>a.T * a * x = a.T * b\<close>.
\<close>

type_synonym qr_fun = "mat3 \<Rightarrow> mat3 \<times> mat3"

type_synonym lstsq_fun = "mat3 \<Rightarrow> vec3 \<Rightarrow> vec3"

definition qr_ok :: "qr_fun \<Rightarrow> mat3 \<Rightarrow> bool" where
  "qr_ok qr A = (case qr A of (q, r) \<Rightarrow>
     mmul (transpose3 q) q = one3 \<and> upper3 r \<and> mmul q r = A)"

definition lstsq_ok :: "lstsq_fun \<Rightarrow> mat3 \<Rightarrow> vec3 \<Rightarrow> bool" where
  "lstsq_ok lstsq A b =
     (mvec (mmul (transpose3 A) A) (lstsq A b) = mvec (transpose3 A) b)"

section \<open>The program\<close>

text \<open>
  \<^verbatim>\<open>rf_rq(P)\<close>: the RQ decomposition through \<^verbatim>\<open>qr\<close> of the transposed, reversed matrix.
  The in-place updates \<^verbatim>\<open>r[:,0] *= -1\<close> and \<^verbatim>\<open>q[0,:] *= -1\<close> act on two different
  arrays; \<open>rq_canon\<close> is that last step, \<^verbatim>\<open>if (numpy.linalg.det(q) < 0): ...\<close>.
  The pair returned is \<^verbatim>\<open>(r, q)\<close>.
\<close>

definition rq_canon :: "mat3 \<Rightarrow> mat3 \<Rightarrow> mat3 \<times> mat3" where
  "rq_canon r q = (if det3 q < 0 then (neg_col0 r, neg_row0 q) else (r, q))"

definition rf_rq :: "qr_fun \<Rightarrow> mat3 \<Rightarrow> mat3 \<times> mat3" where
  "rf_rq qr P =
     (let Pt = transpose3 P;
          (q1, r1) = qr (flip3 Pt);
          q2 = transpose3 q1;
          q = flip3 q2;
          r2 = transpose3 r1;
          r = flip3 r2
      in rq_canon r q)"

text \<open>
  \<^verbatim>\<open>K /= K[-1,-1]\<close>. The divisor is read before the update, so every entry, the last
  one included, is divided by the old \<^verbatim>\<open>K[2,2]\<close>. There is no test of the divisor in
  the source: when it is zero numpy stores \<^verbatim>\<open>nan\<close> at \<^verbatim>\<open>K[2,2]\<close> (and \<^verbatim>\<open>inf\<close> or
  \<^verbatim>\<open>nan\<close> elsewhere) and goes on.
  The quotient here is that of the reals; its range on doubles is the matter of
  \<open>scale_normalize_ieee\<close> further down.
\<close>

definition scale_normalize :: "mat3 \<Rightarrow> mat3 fp" where
  "scale_normalize K = (if m22 K = 0 then NonFinite else Finite (scale3 (1 / m22 K) K))"

text \<open>
  \<^verbatim>\<open>sg = numpy.diag(numpy.sign(numpy.diag(K)))\<close>, \<^verbatim>\<open>K = K * sg\<close>, \<^verbatim>\<open>R = sg * R\<close>.
\<close>

definition sign_canon :: "mat3 \<Rightarrow> mat3 \<Rightarrow> mat3 \<times> mat3" where
  "sign_canon K R = (let sg = diag3 (vsign (diag_of K)) in (mmul K sg, mmul sg R))"

text \<open>\<^verbatim>\<open>if (numpy.linalg.det(R) < 0): R = -R\<close>\<close>

definition proper_fix :: "mat3 \<Rightarrow> mat3" where
  "proper_fix R = (if det3 R < 0 then neg3 R else R)"

text \<open>\<^verbatim>\<open>C = numpy.linalg.lstsq(-H, P[:,-1])[0]\<close>\<close>

definition camera_center :: "lstsq_fun \<Rightarrow> mat34 \<Rightarrow> vec3" where
  "camera_center lstsq P = lstsq (neg3 (leading3 P)) (last_col P)"

text \<open>
  \<^verbatim>\<open>KRT_from_P(P)\<close>. Once \<^verbatim>\<open>K\<close> holds a \<^verbatim>\<open>nan\<close>, so does \<^verbatim>\<open>sg\<close> (the sign of \<^verbatim>\<open>nan\<close>
  is \<^verbatim>\<open>nan\<close>), hence the last column of \<^verbatim>\<open>K * sg\<close> and the last row of \<^verbatim>\<open>sg * R\<close>:
  the triple returned then has non-finite entries.
\<close>

definition KRT_from_P :: "qr_fun \<Rightarrow> lstsq_fun \<Rightarrow> mat34 \<Rightarrow> (mat3 \<times> mat3 \<times> vec3) fp" where
  "KRT_from_P qr lstsq P =
     (let H = leading3 P;
          (K0, R0) = rf_rq qr H
      in case scale_normalize K0 of
           NonFinite \<Rightarrow> NonFinite
         | Finite K1 \<Rightarrow>
             (let (K, R1) = sign_canon K1 R0;
                  R = proper_fix R1;
                  C = camera_center lstsq P;
                  T = mvec (neg3 R) C
              in Finite (K, R, T)))"

subsection \<open>The range of doubles in the division\<close>











section \<open>Notions used to state the properties\<close>

text \<open>
  The adjugate (the transposed matrix of cofactors); \<open>adj3 A\<close> times \<open>A\<close> is
  \<open>det3 A\<close> times the identity.
\<close>

fun adj3 :: "mat3 \<Rightarrow> mat3" where
  "adj3 (Mat3 a b c d e f g h i) = Mat3
     (e * i - f * h) (c * h - b * i) (b * f - c * e)
     (f * g - d * i) (a * i - c * g) (c * d - a * f)
     (d * h - e * g) (b * g - a * h) (a * e - b * d)"

text \<open>
  The form announced by the header comment of \<^verbatim>\<open>KRT_from_P\<close>: \<^verbatim>\<open>K\<close> upper-triangular
  with a positive diagonal, scaled to \<^verbatim>\<open>K[2,2] = 1\<close>, and \<^verbatim>\<open>R\<close> a rotation.
\<close>

definition canonical :: "mat3 \<Rightarrow> mat3 \<Rightarrow> bool" where
  "canonical K R = (upper3 K \<and> 0 < m00 K \<and> 0 < m11 K \<and> m22 K = 1
     \<and> orthogonal3 R \<and> det3 R = 1)"

text \<open>The squared Euclidean norm of \<open>A * x - b\<close>.\<close>

fun vsub :: "vec3 \<Rightarrow> vec3 \<Rightarrow> vec3" where
  "vsub (Vec3 x y z) (Vec3 x' y' z') = Vec3 (x - x') (y - y') (z - z')"

fun dot :: "vec3 \<Rightarrow> vec3 \<Rightarrow> real" where
  "dot (Vec3 x y z) (Vec3 x' y' z') = x * x' + y * y' + z * z'"

definition residual :: "mat3 \<Rightarrow> vec3 \<Rightarrow> vec3 \<Rightarrow> real" where
  "residual A x b = dot (vsub (mvec A x) b) (vsub (mvec A x) b)"


subsection \<open>Instances of the primitives on which the model is run\<close>

text \<open>
  On a matrix that is upper-triangular already, every Householder reflector of the
  LAPACK routine behind \<^verbatim>\<open>numpy.linalg.qr\<close> is the identity (the part of each column
  below the diagonal is zero), so it returns \<^verbatim>\<open>q\<close> the identity and \<^verbatim>\<open>r\<close> the
  argument. \<open>qr_of_upper\<close> is used at such arguments only.
\<close>

definition qr_of_upper :: qr_fun where
  "qr_of_upper A = (one3, A)"

text \<open>
  For a nonsingular \<^verbatim>\<open>a\<close> the least-squares solution of \<^verbatim>\<open>a * x = b\<close> is its
  solution, here by Cramer's rule. When \<^verbatim>\<open>a\<close> is singular the value is the null
  vector; \<open>lstsq_exact\<close> is used there only with \<^verbatim>\<open>b\<close> orthogonal to the columns
  of \<^verbatim>\<open>a\<close>, where the null vector is the least-squares solution of least norm.
\<close>

definition lstsq_exact :: lstsq_fun where
  "lstsq_exact A b = vscale (1 / det3 A) (mvec (adj3 A) b)"

subsection \<open>Concrete inputs\<close>

text \<open>The matrix of \<^verbatim>\<open>test2\<close>, and the \<^verbatim>\<open>k\<close>, \<^verbatim>\<open>r\<close>, \<^verbatim>\<open>t\<close> of its comment.\<close>

definition P_test2 :: mat34 where
  "P_test2 = Mat34 2 0 (- 10) 282  0 (- 3) (- 14) 417  0 0 (- 1) (- 18)"

definition K_test2 :: mat3 where
  "K_test2 = Mat3 2 0 10  0 3 14  0 0 1"

definition R_test2 :: mat3 where
  "R_test2 = Mat3 1 0 0  0 (- 1) 0  0 0 (- 1)"

definition T_test2 :: vec3 where
  "T_test2 = Vec3 231 223 (- 18)"






section \<open>Matrix algebra\<close>

lemma mmul_assoc: "mmul (mmul A B) C = mmul A (mmul B C)"
  by (cases A; cases B; cases C) (simp add: algebra_simps)

lemma mmul_one_left: "mmul one3 A = A"
  by (cases A) (simp add: one3_def)

lemma transpose3_mmul: "transpose3 (mmul A B) = mmul (transpose3 B) (transpose3 A)"
  by (cases A; cases B) (simp add: algebra_simps)

lemma transpose3_idem: "transpose3 (transpose3 A) = A"
  by (cases A) simp

lemma flip3_idem: "flip3 (flip3 A) = A"
  by (cases A) simp

lemma flip3_mmul: "flip3 (mmul A B) = mmul (flip3 A) (flip3 B)"
  by (cases A; cases B) (simp add: algebra_simps)

lemma flip3_transpose3: "flip3 (transpose3 A) = transpose3 (flip3 A)"
  by (cases A) simp

lemma flip3_one3: "flip3 one3 = one3"
  by (simp add: one3_def)

lemma det3_mmul: "det3 (mmul A B) = det3 A * det3 B"
  by (cases A; cases B) (simp add: algebra_simps)

lemma det3_transpose3: "det3 (transpose3 A) = det3 A"
  by (cases A) (simp add: algebra_simps)

lemma det3_one3: "det3 one3 = 1"
  by (simp add: one3_def)

lemma det3_neg3: "det3 (neg3 A) = - det3 A"
  by (cases A) (simp add: algebra_simps)

lemma det3_neg_row0: "det3 (neg_row0 A) = - det3 A"
  by (cases A) (simp add: algebra_simps)

lemma det3_scale3: "det3 (scale3 c A) = c * c * c * det3 A"
  by (cases A) (simp add: algebra_simps)

lemma det3_upper3: "upper3 A \<Longrightarrow> det3 A = m00 A * m11 A * m22 A"
  by (cases A) (simp add: upper3_def)

lemma upper3_flip_transpose: "upper3 (flip3 (transpose3 A)) = upper3 A"
  by (cases A) (auto simp add: upper3_def)

lemma upper3_neg_col0: "upper3 (neg_col0 A) = upper3 A"
  by (cases A) (auto simp add: upper3_def)

lemma mmul_neg_col0_row0: "mmul (neg_col0 A) (neg_row0 B) = mmul A B"
  by (cases A; cases B) simp

lemma orthogonal3_neg_row0: "orthogonal3 A \<Longrightarrow> orthogonal3 (neg_row0 A)"
  by (cases A) (simp add: orthogonal3_def one3_def)

lemma orthogonal3_neg3: "orthogonal3 A \<Longrightarrow> orthogonal3 (neg3 A)"
  by (cases A) (simp add: orthogonal3_def one3_def)

lemma orthogonal3_det: assumes "orthogonal3 Q" shows "det3 Q = 1 \<or> det3 Q = - 1"
proof -
  have "det3 (mmul Q (transpose3 Q)) = 1"
    using assms by (simp add: orthogonal3_def det3_one3)
  then have "det3 Q * det3 Q = 1"
    by (simp add: det3_mmul det3_transpose3)
  then show ?thesis
    by (simp add: square_eq_1_iff)
qed

lemma adj3_mmul: "mmul (adj3 A) (mmul A B) = scale3 (det3 A) B"
  by (cases A; cases B) (simp add: algebra_simps)

lemma adj3_mvec: "mvec (adj3 A) (mvec A x) = vscale (det3 A) x"
  by (cases A; cases x) (simp add: algebra_simps)

lemma scale3_inject: "c \<noteq> 0 \<Longrightarrow> scale3 c A = scale3 c B \<Longrightarrow> A = B"
  by (cases A; cases B) simp

lemma vscale_inject: "c \<noteq> 0 \<Longrightarrow> vscale c x = vscale c y \<Longrightarrow> x = y"
  by (cases x; cases y) simp

lemma mmul_left_cancel: assumes "det3 A \<noteq> 0" "mmul A B = mmul A C" shows "B = C"
proof -
  have "scale3 (det3 A) B = scale3 (det3 A) C"
    using assms(2) adj3_mmul [of A B] adj3_mmul [of A C] by simp
  then show ?thesis using assms(1) by (rule scale3_inject [rotated])
qed

lemma mvec_left_cancel: assumes "det3 A \<noteq> 0" "mvec A x = mvec A y" shows "x = y"
proof -
  have "vscale (det3 A) x = vscale (det3 A) y"
    using assms(2) adj3_mvec [of A x] adj3_mvec [of A y] by simp
  then show ?thesis using assms(1) by (rule vscale_inject [rotated])
qed

lemma rf_rq_props:
  assumes ok: "qr_ok qr (flip3 (transpose3 A))" and res: "rf_rq qr A = (R, Q)"
  shows "upper3 R" and "mmul R Q = A" and "orthogonal3 Q" and "det3 Q = 1"
proof -
  obtain q1 r1 where qr: "qr (flip3 (transpose3 A)) = (q1, r1)"
    by (cases "qr (flip3 (transpose3 A))")
  define q where "q = flip3 (transpose3 q1)"
  define r where "r = flip3 (transpose3 r1)"
  from ok qr have o1: "mmul (transpose3 q1) q1 = one3" and u1: "upper3 r1"
    and p1: "mmul q1 r1 = flip3 (transpose3 A)"
    by (simp_all add: qr_ok_def)
  have up: "upper3 r" using u1 by (simp add: r_def upper3_flip_transpose)
  have "mmul r q = flip3 (transpose3 (mmul q1 r1))"
    by (simp add: r_def q_def flip3_mmul transpose3_mmul)
  then have prod: "mmul r q = A"
    by (simp add: p1 flip3_transpose3 flip3_idem transpose3_idem)
  have "mmul q (transpose3 q) = flip3 (mmul (transpose3 q1) q1)"
    by (simp add: q_def flip3_mmul flip3_transpose3 transpose3_idem)
  then have orth: "orthogonal3 q"
    by (simp add: o1 orthogonal3_def flip3_one3)
  have canon: "rq_canon r q = (R, Q)"
    using res qr by (simp add: rf_rq_def q_def r_def)
  from orthogonal3_det [OF orth] have d: "det3 q = 1 \<or> det3 q = - 1" .
  show "upper3 R" using canon up
    by (auto simp add: rq_canon_def upper3_neg_col0 split: if_splits)
  show "mmul R Q = A" using canon prod
    by (auto simp add: rq_canon_def mmul_neg_col0_row0 split: if_splits)
  show "orthogonal3 Q" using canon orth
    by (auto simp add: rq_canon_def orthogonal3_neg_row0 split: if_splits)
  show "det3 Q = 1" using canon d
    by (auto simp add: rq_canon_def det3_neg_row0 split: if_splits)
qed

lemma sign_canon_product:
  assumes "m00 K \<noteq> 0" "m11 K \<noteq> 0" "m22 K \<noteq> 0"
  shows "mmul (fst (sign_canon K R)) (snd (sign_canon K R)) = mmul K R"
  using assms
  by (cases K; cases R) (simp add: sign_canon_def sgn_real_def algebra_simps)

lemma sign_canon_diag:
  "m00 (fst (sign_canon K R)) = \<bar>m00 K\<bar> \<and> m11 (fst (sign_canon K R)) = \<bar>m11 K\<bar>
   \<and> m22 (fst (sign_canon K R)) = \<bar>m22 K\<bar>"
  by (cases K; cases R) (simp add: sign_canon_def sgn_real_def)

lemma sign_canon_upper: "upper3 K \<Longrightarrow> upper3 (fst (sign_canon K R))"
  by (cases K; cases R) (simp add: sign_canon_def upper3_def)

lemma sign_canon_orthogonal:
  assumes "m00 K \<noteq> 0" "m11 K \<noteq> 0" "m22 K \<noteq> 0" "orthogonal3 R"
  shows "orthogonal3 (snd (sign_canon K R))"
  using assms
  by (cases K; cases R) (simp add: sign_canon_def sgn_real_def orthogonal3_def one3_def)


lemma proper_fix_det: "det3 (proper_fix R) = \<bar>det3 R\<bar>"
  by (simp add: proper_fix_def det3_neg3)

lemma proper_fix_orthogonal: "orthogonal3 R \<Longrightarrow> orthogonal3 (proper_fix R)"
  by (simp add: proper_fix_def orthogonal3_neg3)

lemma mmul_neg3_right: "mmul K (neg3 R) = neg3 (mmul K R)"
  by (cases K; cases R) (simp add: algebra_simps)

lemma mmul_scale3_left: "mmul (scale3 c A) B = scale3 c (mmul A B)"
  by (cases A; cases B) (simp add: algebra_simps)

lemma neg3_scale3: "neg3 (scale3 c A) = scale3 (- c) A"
  by (cases A) simp

lemma mvec_mmul: "mvec (mmul A B) x = mvec A (mvec B x)"
  by (cases A; cases B; cases x) (simp add: algebra_simps)

lemma mvec_scale3: "mvec (scale3 c A) x = vscale c (mvec A x)"
  by (cases A; cases x) (simp add: algebra_simps)

lemma mvec_neg3: "mvec (neg3 A) x = vneg (mvec A x)"
  by (cases A; cases x) (simp add: algebra_simps)

lemma vscale_vneg: "vscale c (vneg x) = vscale (- c) x"
  by (cases x) simp

lemma vneg_vscale: "vneg (vscale c x) = vscale (- c) x"
  by (cases x) simp

text \<open>The normal equations of a nonsingular system give its solution.\<close>

lemma lstsq_solves:
  assumes ok: "lstsq_ok lstsq (neg3 H) b" and ns: "det3 H \<noteq> 0"
  shows "mvec H (lstsq (neg3 H) b) = vneg b"
proof -
  let ?x = "lstsq (neg3 H) b"
  have "mvec (mmul (transpose3 (neg3 H)) (neg3 H)) ?x = mvec (transpose3 (neg3 H)) b"
    using ok by (simp add: lstsq_ok_def)
  then have "mvec (transpose3 H) (mvec H ?x) = mvec (transpose3 H) (vneg b)"
    by (cases H; cases b; cases ?x) (simp add: algebra_simps)
  moreover have "det3 (transpose3 H) \<noteq> 0" using ns by (simp add: det3_transpose3)
  ultimately show ?thesis by (rule mvec_left_cancel [rotated])
qed

lemma KRT_from_P_unfold:
  assumes "rf_rq qr (leading3 P) = (r, q)"
  shows "KRT_from_P qr lstsq P =
    (if m22 r = 0 then NonFinite
     else Finite (fst (sign_canon (scale3 (1 / m22 r) r) q),
                  proper_fix (snd (sign_canon (scale3 (1 / m22 r) r) q)),
                  mvec (neg3 (proper_fix (snd (sign_canon (scale3 (1 / m22 r) r) q))))
                    (camera_center lstsq P)))"
  using assms by (simp add: KRT_from_P_def scale_normalize_def Let_def case_prod_beta)

lemma scale3_entries:
  "m00 (scale3 c A) = c * m00 A" "m11 (scale3 c A) = c * m11 A" "m22 (scale3 c A) = c * m22 A"
  by (cases A, simp)+

lemma upper3_scale3: "upper3 A \<Longrightarrow> upper3 (scale3 c A)"
  by (cases A) (simp add: upper3_def)

lemma KRT_canonical:
  assumes ok: "qr_ok qr (flip3 (transpose3 (leading3 P)))"
    and ns: "det3 (leading3 P) \<noteq> 0"
  shows "\<exists>K R s. s \<noteq> 0 \<and> canonical K R \<and> mmul K R = scale3 s (leading3 P)
    \<and> (\<forall>lstsq. KRT_from_P qr lstsq P =
          Finite (K, R, mvec (neg3 R) (camera_center lstsq P)))"
proof -
  let ?H = "leading3 P"
  obtain r q where rq: "rf_rq qr ?H = (r, q)" by (cases "rf_rq qr ?H")
  note p = rf_rq_props [OF ok rq]
  have "det3 ?H = det3 r * det3 q" using p(2) det3_mmul [of r q] by simp
  then have "m00 r * m11 r * m22 r \<noteq> 0"
    using ns p(1) p(4) by (simp add: det3_upper3)
  then have nz: "m00 r \<noteq> 0" "m11 r \<noteq> 0" "m22 r \<noteq> 0" by auto
  define c where "c = 1 / m22 r"
  define K1 where "K1 = scale3 c r"
  define K where "K = fst (sign_canon K1 q)"
  define R1 where "R1 = snd (sign_canon K1 q)"
  define R where "R = proper_fix R1"
  have cnz: "c \<noteq> 0" using nz by (simp add: c_def)
  have d1: "m00 K1 \<noteq> 0" "m11 K1 \<noteq> 0" "m22 K1 = 1"
    using nz by (simp_all add: K1_def c_def scale3_entries)
  have d1': "m22 K1 \<noteq> 0" using d1(3) by simp
  have upK: "upper3 K"
    using p(1) by (simp add: K_def K1_def sign_canon_upper upper3_scale3)
  have diagK: "0 < m00 K" "0 < m11 K" "m22 K = 1"
    using d1 sign_canon_diag [of K1 q] by (simp_all add: K_def)
  have prod1: "mmul K R1 = scale3 c ?H"
    using sign_canon_product [OF d1(1) d1(2) d1', of q] p(2)
    by (simp add: K_def R1_def K1_def mmul_scale3_left)
  have orth1: "orthogonal3 R1"
    unfolding R1_def by (rule sign_canon_orthogonal [OF d1(1) d1(2) d1' p(3)])
  have orthR: "orthogonal3 R" unfolding R_def by (rule proper_fix_orthogonal [OF orth1])
  have detR: "det3 R = 1"
    using orthogonal3_det [OF orth1] by (auto simp add: R_def proper_fix_det)
  have canon: "canonical K R"
    using upK diagK orthR detR by (simp add: canonical_def)
  have res: "KRT_from_P qr lstsq P = Finite (K, R, mvec (neg3 R) (camera_center lstsq P))"
    for lstsq
    using nz(3) by (simp add: KRT_from_P_unfold [OF rq] K_def R_def R1_def K1_def c_def)
  show ?thesis
  proof (cases "det3 R1 < 0")
    case True
    then have "R = neg3 R1" by (simp add: R_def proper_fix_def)
    then have "mmul K R = scale3 (- c) ?H"
      using prod1 by (simp add: mmul_neg3_right neg3_scale3)
    moreover have "- c \<noteq> 0" using cnz by simp
    ultimately show ?thesis using canon res by blast
  next
    case False
    then have "R = R1" by (simp add: R_def proper_fix_def)
    then have "mmul K R = scale3 c ?H" using prod1 by simp
    then show ?thesis using canon res cnz by blast
  qed
qed

lemma KRT_translation:
  assumes kr: "mmul K R = scale3 s (leading3 P)"
    and ls: "lstsq_ok lstsq (neg3 (leading3 P)) (last_col P)"
    and ns: "det3 (leading3 P) \<noteq> 0"
  shows "mvec K (mvec (neg3 R) (camera_center lstsq P)) = vscale s (last_col P)"
proof -
  let ?C = "camera_center lstsq P"
  have hc: "mvec (leading3 P) ?C = vneg (last_col P)"
    unfolding camera_center_def by (rule lstsq_solves [OF ls ns])
  have "mvec K (mvec (neg3 R) ?C) = vneg (mvec (mmul K R) ?C)"
    by (simp add: mvec_neg3 mvec_mmul) (cases K; cases "mvec R ?C"; simp add: algebra_simps)
  also have "\<dots> = vscale s (last_col P)"
    by (simp add: kr mvec_scale3 hc vneg_vscale vscale_vneg)
  finally show ?thesis .
qed

lemma gram_orthogonal:
  assumes "orthogonal3 R"
  shows "mmul (mmul K R) (transpose3 (mmul K R)) = mmul K (transpose3 K)"
proof -
  have "mmul (mmul K R) (transpose3 (mmul K R))
      = mmul K (mmul (mmul R (transpose3 R)) (transpose3 K))"
    by (simp add: transpose3_mmul mmul_assoc)
  then show ?thesis
    using assms by (simp add: orthogonal3_def mmul_one_left)
qed

lemma pos_square_eq:
  fixes x y :: real
  assumes "0 < x" "0 < y" "x * x = y * y"
  shows "x = y"
proof -
  have "(x - y) * (x + y) = 0" using assms(3) by (simp add: algebra_simps)
  moreover have "x + y \<noteq> 0" using assms(1,2) by simp
  ultimately show ?thesis by simp
qed

lemma upper_gram_unique:
  assumes "upper3 K" "upper3 K'"
    and "0 < m00 K" "0 < m11 K" "m22 K = 1"
    and "0 < m00 K'" "0 < m11 K'" "m22 K' = 1"
    and g: "mmul K (transpose3 K) = mmul K' (transpose3 K')"
  shows "K = K'"
proof -
  obtain a b c d e where K: "K = Mat3 a b c 0 d e 0 0 1"
    using assms(1,5) by (cases K) (simp add: upper3_def)
  obtain a' b' c' d' e' where K': "K' = Mat3 a' b' c' 0 d' e' 0 0 1"
    using assms(2,8) by (cases K') (simp add: upper3_def)
  have pos: "0 < a" "0 < d" "0 < a'" "0 < d'"
    using assms(3,4,6,7) by (simp_all add: K K')
  from g have g': "a * a + b * b + c * c = a' * a' + b' * b' + c' * c'
      \<and> b * d + c * e = b' * d' + c' * e' \<and> c = c'
      \<and> d * d + e * e = d' * d' + e' * e' \<and> e = e'"
    by (auto simp add: K K')
  from g' have c: "c = c'" and e: "e = e'" by simp_all
  from g' have dd: "d * d = d' * d'" by (simp add: e)
  have d: "d = d'" by (rule pos_square_eq [OF pos(2) pos(4) dd])
  from g' have "b * d = b' * d'" by (simp add: c e)
  then have b: "b = b'" using d pos by simp
  from g' have aa: "a * a = a' * a'" by (simp add: b c)
  have a: "a = a'" by (rule pos_square_eq [OF pos(1) pos(3) aa])
  show ?thesis by (simp add: K K' a b c d e)
qed

lemma canonical_unique:
  assumes c: "canonical K R" and c': "canonical K' R'" and eq: "mmul K R = mmul K' R'"
  shows "K = K' \<and> R = R'"
proof -
  have "mmul K (transpose3 K) = mmul K' (transpose3 K')"
    using gram_orthogonal [of R K] gram_orthogonal [of R' K'] c c' eq
    by (simp add: canonical_def)
  moreover have "upper3 K" "upper3 K'" "0 < m00 K" "0 < m11 K" "m22 K = 1"
    "0 < m00 K'" "0 < m11 K'" "m22 K' = 1"
    using c c' by (simp_all add: canonical_def)
  ultimately have k: "K = K'"
    by (rule upper_gram_unique [rotated -1])
  have "det3 K = m00 K * m11 K * m22 K" using c by (simp add: canonical_def det3_upper3)
  then have "det3 K \<noteq> 0" using c by (simp add: canonical_def)
  moreover have "mmul K R = mmul K R'" using eq k by simp
  ultimately have "R = R'" by (rule mmul_left_cancel)
  then show ?thesis using k by simp
qed

text \<open>The scale is fixed by the last row and the sign of the determinant.\<close>

lemma canonical_scale:
  assumes c: "canonical K R" and eq: "mmul K R = scale3 s H"
  shows "s * s * (m20 H * m20 H + m21 H * m21 H + m22 H * m22 H) = 1"
    and "0 < s * det3 H"
proof -
  obtain a b c' d e where K: "K = Mat3 a b c' 0 d e 0 0 1"
    using c by (cases K) (simp add: canonical_def upper3_def)
  have "m20 (mmul K R) = m20 R \<and> m21 (mmul K R) = m21 R \<and> m22 (mmul K R) = m22 R"
    by (cases R) (simp add: K)
  moreover have "m20 (scale3 s H) = s * m20 H \<and> m21 (scale3 s H) = s * m21 H
      \<and> m22 (scale3 s H) = s * m22 H"
    by (cases H) simp
  ultimately have rows: "m20 R = s * m20 H" "m21 R = s * m21 H" "m22 R = s * m22 H"
    using eq by simp_all
  have "m20 R * m20 R + m21 R * m21 R + m22 R * m22 R = 1"
    using c by (cases R) (simp add: canonical_def orthogonal3_def one3_def)
  then show "s * s * (m20 H * m20 H + m21 H * m21 H + m22 H * m22 H) = 1"
    by (simp add: rows algebra_simps)
  then have snz: "s \<noteq> 0" by auto
  have "det3 (mmul K R) = m00 K * m11 K" 
    using c by (simp add: det3_mmul canonical_def det3_upper3)
  then have "0 < det3 (scale3 s H)" using c eq by (simp add: canonical_def)
  then have "0 < (s * s) * (s * det3 H)" by (simp add: det3_scale3 algebra_simps)
  moreover have "0 < s * s" using snz by (cases "0 < s") (simp_all add: zero_less_mult_iff not_less)
  ultimately show "0 < s * det3 H" by (simp add: zero_less_mult_iff)
qed

lemma scale_unique:
  fixes s t n d :: real
  assumes "s * s * n = 1" "t * t * n = 1" "0 < s * d" "0 < t * d"
  shows "s = t"
proof -
  have n: "n \<noteq> 0" using assms(1) by auto
  have "(s * s - t * t) * n = 0" using assms(1,2) by (simp add: algebra_simps)
  then have "(s - t) * (s + t) = 0" using n by (simp add: algebra_simps)
  then have "s = t \<or> s = - t" by auto
  moreover have "s \<noteq> - t" using assms(3,4) by (auto simp add: zero_less_mult_iff)
  ultimately show ?thesis by simp
qed

lemma dot_self_nonneg: "0 \<le> dot v v"
  by (cases v) simp

lemma residual_expand:
  "residual A y b = residual A x b + dot (mvec A (vsub y x)) (mvec A (vsub y x))
     + 2 * dot (vsub y x) (vsub (mvec (mmul (transpose3 A) A) x) (mvec (transpose3 A) b))"
  by (cases A; cases x; cases y; cases b) (simp add: residual_def algebra_simps)

lemma normal_equations_minimal:
  assumes "mvec (mmul (transpose3 A) A) x = mvec (transpose3 A) b"
  shows "residual A x b \<le> residual A y b"
proof -
  have "vsub (mvec (mmul (transpose3 A) A) x) (mvec (transpose3 A) b) = Vec3 0 0 0"
    using assms by (cases "mvec (transpose3 A) b") simp
  moreover have "dot v (Vec3 0 0 0) = 0" for v by (cases v) simp
  ultimately have "residual A y b = residual A x b + dot (mvec A (vsub y x)) (mvec A (vsub y x))"
    using residual_expand [of A y b x] by simp
  then show ?thesis using dot_self_nonneg [of "mvec A (vsub y x)"] by simp
qed

lemma lstsq_neg_normal:
  assumes "lstsq_ok lstsq (neg3 H) b"
  shows "mvec (mmul (transpose3 H) H) (lstsq (neg3 H) b) = mvec (transpose3 H) (vneg b)"
  using assms
  by (cases H; cases b; cases "lstsq (neg3 H) b") (simp add: lstsq_ok_def algebra_simps)

section \<open>The RQ decomposition\<close>

text \<open>
  Claim C3. For a 3x3 matrix \<open>A\<close>, \<^verbatim>\<open>rf_rq(A)\<close> returns \<^verbatim>\<open>(R, Q)\<close> with \<open>R\<close>
  upper-triangular, \<open>R * Q = A\<close> and \<open>Q * Q.T\<close> the identity, whenever the call of
  \<^verbatim>\<open>numpy.linalg.qr\<close> meets its contract. The equalities are exact, the arithmetic
  being real; that \<open>A\<close> is nonsingular is not needed.
\<close>

theorem rf_rq_factorization:
  assumes "qr_ok qr (flip3 (transpose3 A))"
  shows "upper3 (fst (rf_rq qr A))
    \<and> mmul (fst (rf_rq qr A)) (snd (rf_rq qr A)) = A
    \<and> mmul (snd (rf_rq qr A)) (transpose3 (snd (rf_rq qr A))) = one3"
proof -
  obtain R Q where rq: "rf_rq qr A = (R, Q)"
    by (cases "rf_rq qr A")
  from rf_rq_props [OF assms rq] show ?thesis
    by (simp add: rq orthogonal3_def)
qed

theorem rf_rq_factorization_witness:
  "qr_ok qr_of_upper (flip3 (transpose3 (leading3 P_test2)))
   \<and> upper3 (fst (rf_rq qr_of_upper (leading3 P_test2)))
   \<and> mmul (fst (rf_rq qr_of_upper (leading3 P_test2)))
        (snd (rf_rq qr_of_upper (leading3 P_test2))) = leading3 P_test2
   \<and> mmul (snd (rf_rq qr_of_upper (leading3 P_test2)))
        (transpose3 (snd (rf_rq qr_of_upper (leading3 P_test2)))) = one3"
proof -
  have ok: "qr_ok qr_of_upper (flip3 (transpose3 (leading3 P_test2)))"
    by (simp add: qr_ok_def qr_of_upper_def P_test2_def one3_def upper3_def)
  show ?thesis
    using ok rf_rq_factorization [OF ok] by simp
qed

text \<open>
  Claim C10. Under the same contract the orthogonal factor returned by \<^verbatim>\<open>rf_rq\<close>
  has determinant \<open>+1\<close>: it is a proper rotation. The sign step \<open>rq_canon\<close>, which
  negates column 0 of \<open>r\<close> and row 0 of \<open>q\<close> when \<open>det q < 0\<close>, changes neither the
  product \<open>r * q\<close> nor whether \<open>r\<close> is upper-triangular.
\<close>

theorem rf_rq_proper_rotation:
  assumes "qr_ok qr (flip3 (transpose3 A))"
  shows "det3 (snd (rf_rq qr A)) = 1
    \<and> mmul (fst (rq_canon r q)) (snd (rq_canon r q)) = mmul r q
    \<and> upper3 (fst (rq_canon r q)) = upper3 r"
proof -
  obtain R Q where rq: "rf_rq qr A = (R, Q)"
    by (cases "rf_rq qr A")
  have "det3 (snd (rf_rq qr A)) = 1"
    using rf_rq_props(4) [OF assms rq] by (simp add: rq)
  moreover have "mmul (fst (rq_canon r q)) (snd (rq_canon r q)) = mmul r q"
    by (simp add: rq_canon_def mmul_neg_col0_row0)
  moreover have "upper3 (fst (rq_canon r q)) = upper3 r"
    by (simp add: rq_canon_def upper3_neg_col0)
  ultimately show ?thesis
    by simp
qed

theorem rf_rq_proper_rotation_witness:
  "qr_ok qr_of_upper (flip3 (transpose3 (leading3 P_test2)))
   \<and> det3 (snd (rf_rq qr_of_upper (leading3 P_test2))) = 1
   \<and> det3 R_test2 = 1
   \<and> mmul (fst (rq_canon K_test2 (neg3 R_test2))) (snd (rq_canon K_test2 (neg3 R_test2)))
       = mmul K_test2 (neg3 R_test2)
   \<and> upper3 (fst (rq_canon K_test2 (neg3 R_test2))) = upper3 K_test2"
proof -
  have ok: "qr_ok qr_of_upper (flip3 (transpose3 (leading3 P_test2)))"
    by (simp add: qr_ok_def qr_of_upper_def P_test2_def one3_def upper3_def)
  have "det3 R_test2 = 1"
    by (simp add: R_test2_def)
  then show ?thesis
    using ok rf_rq_proper_rotation [OF ok, of K_test2 "neg3 R_test2"] by simp
qed

section \<open>The decomposition of a projection matrix\<close>







lemma test2_qr_ok: "qr_ok qr_of_upper (flip3 (transpose3 (leading3 P_test2)))"
  by (simp add: qr_ok_def qr_of_upper_def P_test2_def one3_def upper3_def)

lemma test2_lstsq_ok: "lstsq_ok lstsq_exact (neg3 (leading3 P_test2)) (last_col P_test2)"
  by (simp add: lstsq_ok_def lstsq_exact_def P_test2_def)

lemma test2_run:
  "KRT_from_P qr_of_upper lstsq_exact P_test2 = Finite (K_test2, R_test2, T_test2)"
  by (simp add: KRT_from_P_def rf_rq_def rq_canon_def qr_of_upper_def one3_def
      scale_normalize_def sign_canon_def proper_fix_def camera_center_def lstsq_exact_def
      P_test2_def K_test2_def R_test2_def T_test2_def)










text \<open>
  Claim C7. Whenever \<^verbatim>\<open>KRT_from_P\<close> returns a finite \<open>(K, R, T)\<close>, the translation is
  \<open>T = -(R * C)\<close> for the returned \<open>R\<close>, the one left by the \<open>det R < 0\<close> fix (so
  \<open>det R \<ge> 0\<close>), where \<open>C\<close> is the value of the \<^verbatim>\<open>lstsq\<close> call. If that call meets its
  contract, \<open>C\<close> is a least-squares solution of \<open>H * C = -p4\<close>, and the solution when
  \<open>H\<close> is nonsingular.
\<close>

theorem KRT_translation_from_center:
  assumes ls: "lstsq_ok lstsq (neg3 (leading3 P)) (last_col P)"
    and res: "KRT_from_P qr lstsq P = Finite (K, R, T)"
  shows "T = vneg (mvec R (camera_center lstsq P)) \<and> 0 \<le> det3 R
    \<and> residual (leading3 P) (camera_center lstsq P) (vneg (last_col P))
        \<le> residual (leading3 P) y (vneg (last_col P))
    \<and> (det3 (leading3 P) \<noteq> 0 \<longrightarrow>
          mvec (leading3 P) (camera_center lstsq P) = vneg (last_col P))"
proof -
  obtain r q where rq: "rf_rq qr (leading3 P) = (r, q)"
    by (cases "rf_rq qr (leading3 P)")
  from res have T: "T = mvec (neg3 R) (camera_center lstsq P)"
    and R: "R = proper_fix (snd (sign_canon (scale3 (1 / m22 r) r) q))"
    by (auto simp add: KRT_from_P_unfold [OF rq] split: if_splits)
  have "0 \<le> det3 R"
    by (simp add: R proper_fix_det)
  moreover have "residual (leading3 P) (camera_center lstsq P) (vneg (last_col P))
      \<le> residual (leading3 P) y (vneg (last_col P))"
    unfolding camera_center_def
    by (rule normal_equations_minimal [OF lstsq_neg_normal [OF ls]])
  moreover have "mvec (leading3 P) (camera_center lstsq P) = vneg (last_col P)"
    if "det3 (leading3 P) \<noteq> 0"
    unfolding camera_center_def by (rule lstsq_solves [OF ls that])
  ultimately show ?thesis
    by (simp add: T mvec_neg3)
qed

theorem KRT_translation_from_center_witness:
  "lstsq_ok lstsq_exact (neg3 (leading3 P_test2)) (last_col P_test2)
   \<and> KRT_from_P qr_of_upper lstsq_exact P_test2 = Finite (K_test2, R_test2, T_test2)
   \<and> T_test2 = vneg (mvec R_test2 (camera_center lstsq_exact P_test2)) \<and> 0 \<le> det3 R_test2
   \<and> residual (leading3 P_test2) (camera_center lstsq_exact P_test2) (vneg (last_col P_test2))
        \<le> residual (leading3 P_test2) (Vec3 0 0 0) (vneg (last_col P_test2))
   \<and> det3 (leading3 P_test2) \<noteq> 0
   \<and> mvec (leading3 P_test2) (camera_center lstsq_exact P_test2) = vneg (last_col P_test2)"
proof -
  have ns: "det3 (leading3 P_test2) \<noteq> 0"
    by (simp add: P_test2_def)
  show ?thesis
    using test2_lstsq_ok test2_run ns
      KRT_translation_from_center [OF test2_lstsq_ok test2_run, of "Vec3 0 0 0"]
    by simp
qed

text \<open>
  The triple returned for a nonsingular leading block does not depend on which
  factorization \<^verbatim>\<open>qr\<close> picked: it is the only one in canonical form that reproduces
  \<open>P\<close> up to scale.
\<close>

lemma KRT_from_P_eq:
  assumes qr: "qr_ok qr (flip3 (transpose3 (leading3 P)))"
    and ls: "lstsq_ok lstsq (neg3 (leading3 P)) (last_col P)"
    and ns: "det3 (leading3 P) \<noteq> 0"
    and c0: "canonical K0 R0"
    and kr0: "mmul K0 R0 = scale3 s0 (leading3 P)"
    and kt0: "mvec K0 T0 = vscale s0 (last_col P)"
  shows "KRT_from_P qr lstsq P = Finite (K0, R0, T0)"
proof -
  from KRT_canonical [OF qr ns] obtain K R s where c: "canonical K R"
    and kr: "mmul K R = scale3 s (leading3 P)"
    and res: "\<forall>l. KRT_from_P qr l P = Finite (K, R, mvec (neg3 R) (camera_center l P))"
    by blast
  define T where "T = mvec (neg3 R) (camera_center lstsq P)"
  have kt: "mvec K T = vscale s (last_col P)"
    unfolding T_def by (rule KRT_translation [OF kr ls ns])
  have s: "s = s0"
    by (rule scale_unique [OF canonical_scale(1) [OF c kr] canonical_scale(1) [OF c0 kr0]
          canonical_scale(2) [OF c kr] canonical_scale(2) [OF c0 kr0]])
  have "mmul K R = mmul K0 R0"
    by (simp add: kr kr0 s)
  from canonical_unique [OF c c0 this] have K: "K = K0" and R: "R = R0"
    by simp_all
  have "det3 K0 = m00 K0 * m11 K0 * m22 K0"
    using c0 by (simp add: canonical_def det3_upper3)
  then have "det3 K0 \<noteq> 0"
    using c0 by (simp add: canonical_def)
  moreover have "mvec K0 T = mvec K0 T0"
    using kt by (simp add: kt0 s K)
  ultimately have "T = T0"
    by (rule mvec_left_cancel)
  then show ?thesis
    using res by (simp add: K R T_def)
qed

text \<open>
  Claim C9. On the matrix \<open>P\<close> of \<^verbatim>\<open>test2\<close>, \<^verbatim>\<open>KRT_from_P\<close> returns
  \<open>K = [[2,0,10],[0,3,14],[0,0,1]]\<close>, \<open>R = [[1,0,0],[0,-1,0],[0,0,-1]]\<close> and
  \<open>T = [231,223,-18]\<close>, exactly, whatever factorization \<^verbatim>\<open>qr\<close> returns within its
  contract; \<open>det R = 1\<close> and \<open>K * [R | T] = P\<close>.
\<close>

theorem KRT_from_P_test2:
  assumes qr: "qr_ok qr (flip3 (transpose3 (leading3 P_test2)))"
    and ls: "lstsq_ok lstsq (neg3 (leading3 P_test2)) (last_col P_test2)"
  shows "KRT_from_P qr lstsq P_test2 = Finite (K_test2, R_test2, T_test2)
    \<and> det3 R_test2 = 1
    \<and> mmul34 K_test2 (hstack R_test2 T_test2) = P_test2"
proof -
  have ns: "det3 (leading3 P_test2) \<noteq> 0"
    by (simp add: P_test2_def)
  have c0: "canonical K_test2 R_test2"
    by (simp add: canonical_def K_test2_def R_test2_def upper3_def orthogonal3_def one3_def)
  have kr0: "mmul K_test2 R_test2 = scale3 1 (leading3 P_test2)"
    by (simp add: K_test2_def R_test2_def P_test2_def)
  have kt0: "mvec K_test2 T_test2 = vscale 1 (last_col P_test2)"
    by (simp add: K_test2_def T_test2_def P_test2_def)
  have "KRT_from_P qr lstsq P_test2 = Finite (K_test2, R_test2, T_test2)"
    by (rule KRT_from_P_eq [OF qr ls ns c0 kr0 kt0])
  moreover have "det3 R_test2 = 1"
    by (simp add: R_test2_def)
  moreover have "mmul34 K_test2 (hstack R_test2 T_test2) = P_test2"
    by (simp add: P_test2_def K_test2_def R_test2_def T_test2_def mmul34_def)
  ultimately show ?thesis
    by simp
qed

theorem KRT_from_P_test2_witness:
  "qr_ok qr_of_upper (flip3 (transpose3 (leading3 P_test2)))
   \<and> lstsq_ok lstsq_exact (neg3 (leading3 P_test2)) (last_col P_test2)
   \<and> KRT_from_P qr_of_upper lstsq_exact P_test2 = Finite (K_test2, R_test2, T_test2)
   \<and> det3 R_test2 = 1
   \<and> mmul34 K_test2 (hstack R_test2 T_test2) = P_test2"
  using test2_qr_ok test2_lstsq_ok KRT_from_P_test2 [OF test2_qr_ok test2_lstsq_ok]
  by simp



section \<open>Inputs outside the intended domain\<close>













end
